theory Spec2Isabelle
  imports Main
begin

section \<open>LiveEvents: event delegation (packages/liveui/liveevents.js)\<close>

text \<open>
  The model follows \<^verbatim>\<open>liveevents.js\<close>. DOM nodes, callbacks and the event-data object are
  JavaScript object references; they are modelled as natural numbers (addresses). A
  JavaScript \<^verbatim>\<open>null\<close> node is \<open>None\<close>. Strings are \<open>string\<close>; a \<open>char\<close> stands for
  a UTF-16 code unit below 256.
\<close>

type_synonym node = nat
type_synonym callback = nat
type_synonym event_data = nat

datatype js_error = TypeError

subsection \<open>The DOM and the host services the code calls\<close>

text \<open>
  The fields are the DOM properties the source reads. \<open>jq_find\<close> is the selector
  matcher \<^verbatim>\<open>$(contextNode).find(selector)\<close>, an external capability; it is a parameter
  of the model and nothing is assumed about it.
\<close>

record dom =
  parentNode :: "node \<Rightarrow> node option"
  nextSibling :: "node \<Rightarrow> node option"
  firstChild :: "node \<Rightarrow> node option"
  nodeName :: "node \<Rightarrow> string"
  input_type :: "node \<Rightarrow> string"
  getElementsByTagName :: "node \<Rightarrow> string \<Rightarrow> node list"
  jq_find :: "node option \<Rightarrow> string \<Rightarrow> node list"

subsection \<open>Splitting the spec strings\<close>

text \<open>
  \<^verbatim>\<open>\s\<close> of a JavaScript regular expression, on code units below 256: tab, line feed,
  vertical tab, form feed, carriage return, space and no-break space.
\<close>

definition is_space :: "char \<Rightarrow> bool" where
  "is_space c = (c = CHR 0x09 \<or> c = CHR 0x0A \<or> c = CHR 0x0B \<or> c = CHR 0x0C
     \<or> c = CHR 0x0D \<or> c = CHR 0x20 \<or> c = CHR 0xA0)"

text \<open>
  \<^verbatim>\<open>clause.split(/\s+/)\<close>, by the algorithm of ECMAScript 15.5.4.14: \<open>piece\<close> is the
  text since the end of the last separator; at each position the separator is tried;
  a match (a maximal run of white space) closes the piece; the text after the last
  separator is the last piece, so the result is never the empty list.
\<close>

function split_ws_from :: "string \<Rightarrow> string \<Rightarrow> string list" where
  "split_ws_from piece [] = [piece]"
| "split_ws_from piece (c # cs) =
     (if is_space c then piece # split_ws_from [] (dropWhile is_space cs)
      else split_ws_from (piece @ [c]) cs)"
  by pat_completeness auto
termination
  by (relation "measure (\<lambda>(piece, s). length s)")
     (auto simp: le_imp_less_Suc length_dropWhile_le)

definition split_ws :: "string \<Rightarrow> string list" where
  "split_ws s = split_ws_from [] s"

text \<open>
  \<^verbatim>\<open>spec.split(/,\s+/)\<close>: the separator matches at a comma that is followed by at least
  one white-space character, and takes the whole run of white space.
\<close>

function split_clauses_from :: "string \<Rightarrow> string \<Rightarrow> string list" where
  "split_clauses_from piece [] = [piece]"
| "split_clauses_from piece (c # cs) =
     (if c = CHR '','' \<and> cs \<noteq> [] \<and> is_space (hd cs)
      then piece # split_clauses_from [] (dropWhile is_space cs)
      else split_clauses_from (piece @ [c]) cs)"
  by pat_completeness auto
termination
  by (relation "measure (\<lambda>(piece, s). length s)")
     (auto simp: le_imp_less_Suc length_dropWhile_le)

definition split_clauses :: "string \<Rightarrow> string list" where
  "split_clauses s = split_clauses_from [] s"

text \<open>\<^verbatim>\<open>parts.join(' ')\<close>.\<close>

fun join :: "string \<Rightarrow> string list \<Rightarrow> string" where
  "join sep [] = []"
| "join sep [x] = x"
| "join sep (x # y # ys) = x @ sep @ join sep (y # ys)"

subsection \<open>Event types and Normalized Bindings\<close>

text \<open>
  The \<^verbatim>\<open>switch (eventType)\<close> of lines 70 to 87. The first argument is the truth value
  of \<^verbatim>\<open>wireIEChangeSubmitHack\<close>: it is a function (truthy) exactly in old IE.
\<close>

definition rewrite :: "bool \<Rightarrow> string \<Rightarrow> string \<times> bool" where
  "rewrite wireIE eventType =
     (if eventType = ''focus'' then (''focusin'', False)
      else if eventType = ''blur'' then (''focusout'', False)
      else if eventType = ''change'' then ((if wireIE then ''cellchange'' else eventType), True)
      else if eventType = ''submit'' then ((if wireIE then ''datasetcomplete'' else eventType), True)
      else (eventType, True))"

record binding =
  eventType :: string
  rewrittenType :: string
  bubbles :: bool
  selector :: string
  callback :: callback

text \<open>
  The body of the clause loop up to the \<^verbatim>\<open>switch\<close> (lines 57 to 87): \<open>None\<close> is the
  early \<^verbatim>\<open>return\<close> of line 59.
\<close>

definition normalize :: "bool \<Rightarrow> callback \<Rightarrow> string \<Rightarrow> binding option" where
  "normalize wireIE cb clause =
     (case split_ws clause of
        [] \<Rightarrow> None
      | et # parts \<Rightarrow>
          Some \<lparr> eventType = et, rewrittenType = fst (rewrite wireIE et),
                 bubbles = snd (rewrite wireIE et), selector = join '' '' parts,
                 callback = cb \<rparr>)"

text \<open>
  The bindings the two nested \<^verbatim>\<open>_.each\<close> loops go through, in their order. The event
  map is the list of its entries in iteration order; an absent map
  (\<^verbatim>\<open>events || {}\<close>) is \<open>None\<close>.
\<close>

definition clause_bindings :: "bool \<Rightarrow> string \<times> callback \<Rightarrow> binding list" where
  "clause_bindings wireIE entry =
     List.map_filter (normalize wireIE (snd entry)) (split_clauses (fst entry))"

definition bindings :: "bool \<Rightarrow> (string \<times> callback) list option \<Rightarrow> binding list" where
  "bindings wireIE events =
     concat (map (clause_bindings wireIE) (case events of None \<Rightarrow> [] | Some m \<Rightarrow> m))"

subsection \<open>The delegated listener\<close>

text \<open>
  The event object a listener receives, with the two fields the source touches.
\<close>

record event =
  type :: string
  target :: node

text \<open>
  The function passed to \<^verbatim>\<open>$.event.add\<close> (lines 90 to 117) is a closure; it is modelled
  by the values it captures: the node it is attached to, the binding of the clause
  and \<^verbatim>\<open>event_data\<close>.
\<close>

record closure =
  renderNode :: node
  bound :: binding
  this_data :: event_data

text \<open>\<^verbatim>\<open>callback.call(event_data, evt)\<close>: the callback, its \<^verbatim>\<open>this\<close> and its argument.\<close>

datatype invocation = Call callback event_data event

text \<open>
  The loop of lines 100 to 111, from \<open>curNode\<close>; its value is \<^verbatim>\<open>selectorMatch\<close>.
  \<^verbatim>\<open>_.contains(results, curNode)\<close> is membership by identity; \<open>results\<close> holds nodes
  only, so \<^verbatim>\<open>null\<close> is never a member. Reading \<^verbatim>\<open>parentNode\<close> of \<^verbatim>\<open>null\<close> throws.
  A parent chain that never reaches the context would keep the loop running: the
  outer \<open>option\<close> is \<open>None\<close> then.
\<close>

partial_function (option) walk ::
  "dom \<Rightarrow> node list \<Rightarrow> bool \<Rightarrow> node option \<Rightarrow> node option \<Rightarrow> (js_error + node option) option"
where
  "walk D results bubbles' contextNode curNode =
     (if curNode = contextNode then Some (Inr None)
      else (case curNode of
              None \<Rightarrow> (if \<not> bubbles' then Some (Inr None) else Some (Inl TypeError))
            | Some n \<Rightarrow>
                if n \<in> set results then Some (Inr (Some n))
                else if \<not> bubbles' then Some (Inr None)
                else walk D results bubbles' contextNode (parentNode D n)))"

text \<open>
  The listener itself. It returns the event as it leaves it and the callback
  invocations it made, or the error it threw.
\<close>

definition listener_fn ::
  "dom \<Rightarrow> closure \<Rightarrow> event \<Rightarrow> (js_error + event \<times> invocation list) option" where
  "listener_fn D c evt0 =
     (let contextNode = parentNode D (renderNode c);
          evt = evt0\<lparr>type := eventType (bound c)\<rparr>
      in if selector (bound c) \<noteq> [] then
           (case walk D (jq_find D contextNode (selector (bound c))) (bubbles (bound c))
                   contextNode (Some (target evt)) of
              None \<Rightarrow> None
            | Some (Inl e) \<Rightarrow> Some (Inl e)
            | Some (Inr None) \<Rightarrow> Some (Inr (evt, []))
            | Some (Inr (Some selectorMatch)) \<Rightarrow>
                Some (Inr (evt, [Call (callback (bound c)) (this_data c) evt])))
         else Some (Inr (evt, [Call (callback (bound c)) (this_data c) evt])))"

subsection \<open>The listener registry\<close>

text \<open>
  A registered handler is a delegated listener of this file or a function of another
  subsystem. A registration keeps the node, the string given to \<^verbatim>\<open>$.event.add\<close>
  (event type and namespaces, separated by dots) and the handler.
\<close>

datatype handler = Delegated closure | Foreign nat

record listener =
  on_node :: node
  types :: string
  handler :: handler

type_synonym registry = "listener list"

text \<open>
  Modelled from the spec: the low-level listener attach of jQuery, \<^verbatim>\<open>$.event.add\<close>,
  which is not in this file. A registration is keyed by node, type and namespace and
  is added after the earlier ones; nothing is deduplicated.
\<close>

definition event_add :: "node \<Rightarrow> string \<Rightarrow> handler \<Rightarrow> registry \<Rightarrow> registry" where
  "event_add n ts h R = R @ [\<lparr> on_node = n, types = ts, handler = h \<rparr>]"

text \<open>
  Modelled from the spec: the type of a registration is the text before the first dot,
  its namespaces are the dot-separated names after it.
\<close>

definition reg_type :: "string \<Rightarrow> string" where
  "reg_type ts = takeWhile (\<lambda>c. c \<noteq> CHR ''.'') ts"

fun split_dots_from :: "string \<Rightarrow> string \<Rightarrow> string list" where
  "split_dots_from piece [] = [piece]"
| "split_dots_from piece (c # cs) =
     (if c = CHR ''.'' then piece # split_dots_from [] cs
      else split_dots_from (piece @ [c]) cs)"

definition reg_namespaces :: "string \<Rightarrow> string list" where
  "reg_namespaces ts = tl (split_dots_from [] ts)"

text \<open>
  Modelled from the spec: the namespaced detach of jQuery, \<^verbatim>\<open>$(node).unbind(".ns")\<close>:
  every registration on the node that carries the namespace is removed, whatever
  its type; the others stay, in their order.
\<close>

definition unbind :: "node \<Rightarrow> string \<Rightarrow> registry \<Rightarrow> registry" where
  "unbind n ns R = filter (\<lambda>l. \<not> (on_node l = n \<and> ns \<in> set (reg_namespaces (types l)))) R"

subsection \<open>attachEvents and resetEvents\<close>

text \<open>
  \<^verbatim>\<open>for (var n = start; n && n !== after; n = n.nextSibling) body(n)\<close>, the loop of
  lines 121 and 194, over a state the body updates. A sibling chain that never
  reaches \<^verbatim>\<open>after\<close> or \<^verbatim>\<open>null\<close> keeps it running: the result is \<open>None\<close> then.
\<close>

partial_function (option) sibling_loop ::
  "dom \<Rightarrow> (node \<Rightarrow> 's \<Rightarrow> 's) \<Rightarrow> node option \<Rightarrow> node option \<Rightarrow> 's \<Rightarrow> 's option"
where
  "sibling_loop D body after n S =
     (case n of
        None \<Rightarrow> Some S
      | Some m \<Rightarrow> if n = after then Some S
                  else sibling_loop D body after (nextSibling D m) (body m S))"

text \<open>\<^verbatim>\<open>attach\<close> of lines 89 to 118.\<close>

definition attach :: "binding \<Rightarrow> event_data \<Rightarrow> node \<Rightarrow> registry \<Rightarrow> registry" where
  "attach b data rn R =
     event_add rn (rewrittenType b @ ''.liveui'')
       (Delegated \<lparr> renderNode = rn, bound = b, this_data = data \<rparr>) R"

text \<open>\<^verbatim>\<open>_.each\<close> over a list, with a body that may not return.\<close>

fun each :: "('a \<Rightarrow> 's \<Rightarrow> 's option) \<Rightarrow> 'a list \<Rightarrow> 's \<Rightarrow> 's option" where
  "each f [] S = Some S"
| "each f (x # xs) S = (case f x S of None \<Rightarrow> None | Some S' \<Rightarrow> each f xs S')"

definition attachEvents ::
  "dom \<Rightarrow> bool \<Rightarrow> node \<Rightarrow> node \<Rightarrow> (string \<times> callback) list option \<Rightarrow> event_data
     \<Rightarrow> registry \<Rightarrow> registry option" where
  "attachEvents D wireIE start end' events data R =
     each (\<lambda>entry.
        each (\<lambda>clause R'.
           (case normalize wireIE (snd entry) clause of
              None \<Rightarrow> Some R'
            | Some b \<Rightarrow>
                sibling_loop D (attach b data) (nextSibling D end') (Some start) R'))
          (split_clauses (fst entry)))
       (case events of None \<Rightarrow> [] | Some m \<Rightarrow> m) R"

definition resetEvents :: "node \<Rightarrow> registry \<Rightarrow> registry" where
  "resetEvents n R = unbind n ''liveui'' R"

text \<open>
  Modelled from the spec: the host delivers an event to a node by running, in the
  order of registration, the handlers registered on that node for the event's type
  as it is at the start of the delivery; all of them receive the same event object.
  A handler of another subsystem is not run by this model: it is skipped. An error
  thrown by a listener ends the delivery.
\<close>

fun run_listeners ::
  "dom \<Rightarrow> listener list \<Rightarrow> event \<Rightarrow> (js_error + event \<times> invocation list) option" where
  "run_listeners D [] evt = Some (Inr (evt, []))"
| "run_listeners D (l # ls) evt =
     (case handler l of
        Foreign f \<Rightarrow> run_listeners D ls evt
      | Delegated c \<Rightarrow>
          (case listener_fn D c evt of
             None \<Rightarrow> None
           | Some (Inl e) \<Rightarrow> Some (Inl e)
           | Some (Inr (evt', calls)) \<Rightarrow>
               (case run_listeners D ls evt' of
                  None \<Rightarrow> None
                | Some (Inl e) \<Rightarrow> Some (Inl e)
                | Some (Inr (evt'', calls')) \<Rightarrow> Some (Inr (evt'', calls @ calls')))))"

definition deliver ::
  "dom \<Rightarrow> registry \<Rightarrow> node \<Rightarrow> event \<Rightarrow> (js_error + event \<times> invocation list) option" where
  "deliver D R n evt =
     run_listeners D (filter (\<lambda>l. on_node l = n \<and> reg_type (types l) = type evt) R) evt"

subsection \<open>The compatibility layer of old IE\<close>

text \<open>
  Modelled from the spec: the host's own listener table, written by
  \<^verbatim>\<open>attachEvent\<close> and \<^verbatim>\<open>detachEvent\<close>. An entry is a node, the name of the event and the
  attached function. \<^verbatim>\<open>attachEvent\<close> adds an entry even when the same function is
  attached already; \<^verbatim>\<open>detachEvent\<close> takes one entry of the function away and does
  nothing when there is none.
\<close>

datatype native_handler = ChangeSubmitHandlerIE | OtherHandler nat

type_synonym native_registry = "(node \<times> string \<times> native_handler) list"

definition attachEvent ::
  "node \<Rightarrow> string \<Rightarrow> native_handler \<Rightarrow> native_registry \<Rightarrow> native_registry" where
  "attachEvent n ev h NR = NR @ [(n, ev, h)]"

definition detachEvent ::
  "node \<Rightarrow> string \<Rightarrow> native_handler \<Rightarrow> native_registry \<Rightarrow> native_registry" where
  "detachEvent n ev h NR = remove1 (n, ev, h) NR"

text \<open>\<^verbatim>\<open>wireNode\<close> of lines 178 to 191.\<close>

definition wireNode :: "dom \<Rightarrow> node \<Rightarrow> native_registry \<Rightarrow> native_registry" where
  "wireNode D n NR =
     (if nodeName D n = ''INPUT'' then
        (if input_type D n = ''checkbox'' \<or> input_type D n = ''radio'' then
           attachEvent n ''onpropertychange'' ChangeSubmitHandlerIE
             (detachEvent n ''onpropertychange'' ChangeSubmitHandlerIE NR)
         else
           attachEvent n ''onchange'' ChangeSubmitHandlerIE
             (detachEvent n ''onchange'' ChangeSubmitHandlerIE NR))
      else if nodeName D n = ''FORM'' then
        attachEvent n ''onsubmit'' ChangeSubmitHandlerIE
          (detachEvent n ''onsubmit'' ChangeSubmitHandlerIE NR)
      else NR)"

text \<open>The body of the loop of lines 194 to 200.\<close>

definition wire_range_node :: "dom \<Rightarrow> node \<Rightarrow> native_registry \<Rightarrow> native_registry" where
  "wire_range_node D n NR =
     (let NR1 = wireNode D n NR in
      if firstChild D n \<noteq> None then
        fold (wireNode D) (getElementsByTagName D n ''FORM'')
          (fold (wireNode D) (getElementsByTagName D n ''INPUT'') NR1)
      else NR1)"

definition wireIEChangeSubmitHack ::
  "dom \<Rightarrow> node \<Rightarrow> node \<Rightarrow> native_registry \<Rightarrow> native_registry option" where
  "wireIEChangeSubmitHack D start end' NR =
     sibling_loop D (wire_range_node D) (nextSibling D end') (Some start) NR"

definition prepareForEvents ::
  "dom \<Rightarrow> bool \<Rightarrow> node \<Rightarrow> node \<Rightarrow> native_registry \<Rightarrow> native_registry option" where
  "prepareForEvents D wireIE start end' NR =
     (if wireIE then wireIEChangeSubmitHack D start end' NR else Some NR)"

text \<open>Any number of calls of \<^verbatim>\<open>prepareForEvents\<close>, one for each range of the list.\<close>

definition prepare_all ::
  "dom \<Rightarrow> bool \<Rightarrow> (node \<times> node) list \<Rightarrow> native_registry \<Rightarrow> native_registry option" where
  "prepare_all D wireIE ranges NR =
     each (\<lambda>r. prepareForEvents D wireIE (fst r) (snd r)) ranges NR"

text \<open>
  The event object of IE (\<^verbatim>\<open>window.event\<close>), with the fields the source reads and
  writes; an unset \<^verbatim>\<open>returnValue\<close> is \<open>None\<close>. \<^verbatim>\<open>cancelBubble\<close> is the field of the host
  that stops the propagation of the event when a listener sets it.
\<close>

record ie_event =
  ie_type :: string
  srcElement :: "node option"
  propertyName :: string
  returnValue :: "bool option"
  cancelBubble :: bool

text \<open>
  What the two handlers do to the host, in the order they do it: the assignment
  \<^verbatim>\<open>evt.returnValue = false\<close> that blocks the native default of the original event, a
  call of \<^verbatim>\<open>target.fireEvent\<close> and a call of \<^verbatim>\<open>target.submit()\<close>.
\<close>

datatype action = BlockDefault | FireEvent node string | Submit node

text \<open>The listener attached to the document for \<^verbatim>\<open>ondatasetcomplete\<close> (lines 204 to 210).\<close>

definition ondatasetcomplete :: "dom \<Rightarrow> ie_event option \<Rightarrow> action list" where
  "ondatasetcomplete D window_event =
     (case window_event of
        None \<Rightarrow> []
      | Some evt \<Rightarrow>
          (case srcElement evt of
             None \<Rightarrow> []
           | Some target' \<Rightarrow>
               if nodeName D target' = ''FORM'' \<and> returnValue evt \<noteq> Some False
               then [Submit target'] else []))"

definition createEventObject :: ie_event where
  "createEventObject =
     \<lparr> ie_type = [], srcElement = None, propertyName = [], returnValue = None,
       cancelBubble = False \<rparr>"

text \<open>
  Modelled from the spec: the host's \<^verbatim>\<open>fireEvent\<close>. The event is dispatched at once and
  bubbles from its target towards the document. The listeners it meets below the
  document (the delegated ones, with the user's callbacks) are the parameter \<open>below\<close>:
  the event as they leave it. With the standard primitives of the host a callback
  may cancel the event (\<^verbatim>\<open>returnValue\<close> false) and may stop its propagation
  (\<^verbatim>\<open>cancelBubble\<close> true); these two fields are taken from \<open>below\<close>, the other fields are
  the host's. The document's listener of the event runs, once, when the propagation
  was not stopped; it does not run when it was.
\<close>

definition fireEvent ::
  "dom \<Rightarrow> (ie_event \<Rightarrow> ie_event) \<Rightarrow> node \<Rightarrow> string \<Rightarrow> ie_event \<Rightarrow> action list" where
  "fireEvent D below target' name newEvent =
     (let dispatched = newEvent\<lparr>ie_type := drop 2 name, srcElement := Some target'\<rparr>;
          evt = dispatched\<lparr>returnValue := returnValue (below dispatched),
                           cancelBubble := cancelBubble (below dispatched)\<rparr>
      in FireEvent target' name #
           (if name = ''ondatasetcomplete'' \<and> \<not> cancelBubble evt
            then ondatasetcomplete D (Some evt)
            else []))"

text \<open>
  \<^verbatim>\<open>changeSubmitHandlerIE\<close> (lines 215 to 237), run with \<^verbatim>\<open>window.event\<close>: the event as
  the handler leaves it and what it did.
\<close>

definition changeSubmitHandlerIE ::
  "dom \<Rightarrow> (ie_event \<Rightarrow> ie_event) \<Rightarrow> ie_event option \<Rightarrow> ie_event option \<times> action list" where
  "changeSubmitHandlerIE D below window_event =
     (case window_event of
        None \<Rightarrow> (None, [])
      | Some evt \<Rightarrow>
          (case srcElement evt of
             None \<Rightarrow> (Some evt, [])
           | Some target' \<Rightarrow>
               (let newEvent = createEventObject;
                    change_actions =
                      (if ie_type evt = ''propertychange'' \<and> propertyName evt = ''checked''
                          \<or> ie_type evt = ''change''
                       then fireEvent D below target' ''oncellchange'' newEvent else [])
                in if ie_type evt = ''submit''
                   then (Some (evt\<lparr>returnValue := Some False\<rparr>),
                         change_actions @ [BlockDefault]
                           @ fireEvent D below target' ''ondatasetcomplete'' newEvent)
                   else (Some evt, change_actions))))"

subsection \<open>Well-formed ranges and paths of the DOM\<close>

text \<open>
  \<open>parent_chain D path\<close>: each node of the non-empty list is followed by its parent.
\<close>

fun parent_chain :: "dom \<Rightarrow> node list \<Rightarrow> bool" where
  "parent_chain D [] = False"
| "parent_chain D [n] = True"
| "parent_chain D (n # m # ns) = (parentNode D n = Some m \<and> parent_chain D (m # ns))"

text \<open>
  An event with origin \<open>t\<close> is delivered to the bound node \<open>rn\<close>: \<open>path\<close> is the
  parent-link path from \<open>t\<close> up to \<open>rn\<close>, both included, so it stops just before the
  context node, the parent of \<open>rn\<close>. The DOM is a tree: the context node is not on the
  path below it.
\<close>

definition delivery_path :: "dom \<Rightarrow> node \<Rightarrow> node list \<Rightarrow> node \<Rightarrow> bool" where
  "delivery_path D t path rn =
     (parent_chain D path \<and> hd path = t \<and> last path = rn
      \<and> parentNode D rn \<notin> set (map Some path))"

text \<open>
  \<open>sibling_chain D ns\<close>: each node of the non-empty list is followed by its next
  sibling.
\<close>

fun sibling_chain :: "dom \<Rightarrow> node list \<Rightarrow> bool" where
  "sibling_chain D [] = False"
| "sibling_chain D [n] = True"
| "sibling_chain D (n # m # ns) = (nextSibling D n = Some m \<and> sibling_chain D (m # ns))"

text \<open>
  The Node Range \<open>[start, end]\<close>: \<open>ns\<close> is the list of the siblings from \<open>start\<close> to
  \<open>end\<close>, both included. Siblings are distinct nodes and the sibling after \<open>end\<close> is
  not one of them.
\<close>

definition node_range :: "dom \<Rightarrow> node \<Rightarrow> node \<Rightarrow> node list \<Rightarrow> bool" where
  "node_range D start end' ns =
     (sibling_chain D ns \<and> hd ns = start \<and> last ns = end' \<and> distinct ns
      \<and> nextSibling D end' \<notin> set (map Some ns))"

text \<open>
  A small document for the examples: node 0 has the children 1 and 4; under 1 is the
  form 2 and under it the checkbox 3. The selector \<^verbatim>\<open>.save\<close> under the context 0
  matches node 2.
\<close>

definition example_dom :: dom where
  "example_dom =
     \<lparr> parentNode = (\<lambda>n. if n = 0 then None else if n = 4 then Some 0 else Some (n - 1)),
       nextSibling = (\<lambda>n. if n = 1 then Some 4 else None),
       firstChild = (\<lambda>n. if n = 4 then None else if n < 3 then Some (n + 1) else None),
       nodeName = (\<lambda>n. if n = 2 then ''FORM'' else if n = 3 then ''INPUT'' else ''DIV''),
       input_type = (\<lambda>n. if n = 3 then ''checkbox'' else []),
       getElementsByTagName = (\<lambda>n tag. if tag = ''FORM'' \<and> n < 2 then [2]
                                 else if tag = ''INPUT'' \<and> n < 3 then [3] else []),
       jq_find = (\<lambda>c s. if c = Some 0 \<and> s = ''.save'' then [2] else []) \<rparr>"

subsection \<open>What attachEvents installs\<close>

text \<open>
  The registration \<^verbatim>\<open>attach\<close> makes on node \<open>n\<close> for a binding: the listener for the
  rewritten type under the namespace \<^verbatim>\<open>.liveui\<close>, with the closure of that node.
\<close>

definition registration :: "binding \<Rightarrow> event_data \<Rightarrow> node \<Rightarrow> listener" where
  "registration b data n =
     \<lparr> on_node = n, types = rewrittenType b @ ''.liveui'',
       handler = Delegated \<lparr> renderNode = n, bound = b, this_data = data \<rparr> \<rparr>"

text \<open>One registration for each binding of the event map and each node of the list.\<close>

definition installed ::
  "bool \<Rightarrow> (string \<times> callback) list option \<Rightarrow> event_data \<Rightarrow> node list \<Rightarrow> registry" where
  "installed wireIE events data ns =
     concat (map (\<lambda>b. map (registration b data) ns) (bindings wireIE events))"

text \<open>A registration under the namespace of this subsystem.\<close>

definition liveui :: "listener \<Rightarrow> bool" where
  "liveui l = (''liveui'' \<in> set (reg_namespaces (types l)))"

text \<open>
  The delegated listeners of a registry are all registered under \<^verbatim>\<open>.liveui\<close>: they are
  installed by \<^verbatim>\<open>attach\<close> only.
\<close>

definition delegated_under_liveui :: "registry \<Rightarrow> bool" where
  "delegated_under_liveui R =
     list_all (\<lambda>l. case handler l of Delegated c \<Rightarrow> liveui l | Foreign f \<Rightarrow> True) R"

subsection \<open>What the compatibility layer wires and fires\<close>

text \<open>
  The entries of the host's listener table that hold the shared handler
  \<^verbatim>\<open>changeSubmitHandlerIE\<close>, and the table having no such entry twice: at most one for
  a node and an event.
\<close>

definition compat_entries :: "native_registry \<Rightarrow> native_registry" where
  "compat_entries NR = filter (\<lambda>e. snd (snd e) = ChangeSubmitHandlerIE) NR"

definition at_most_one :: "native_registry \<Rightarrow> bool" where
  "at_most_one NR = distinct (compat_entries NR)"

text \<open>The event \<^verbatim>\<open>wireNode\<close> wires on an \<^verbatim>\<open>INPUT\<close> or \<^verbatim>\<open>FORM\<close> node.\<close>

definition wired_event :: "dom \<Rightarrow> node \<Rightarrow> string" where
  "wired_event D n =
     (if nodeName D n = ''INPUT'' then
        (if input_type D n = ''checkbox'' \<or> input_type D n = ''radio''
         then ''onpropertychange'' else ''onchange'')
      else ''onsubmit'')"

text \<open>
  The nodes the loop of \<^verbatim>\<open>wireIEChangeSubmitHack\<close> passes to \<^verbatim>\<open>wireNode\<close>, in its order:
  each node of the range, then its \<^verbatim>\<open>INPUT\<close> and its \<^verbatim>\<open>FORM\<close> descendants.
\<close>

definition wired_nodes :: "dom \<Rightarrow> node list \<Rightarrow> node list" where
  "wired_nodes D ns =
     concat (map (\<lambda>n. n # (if firstChild D n \<noteq> None
                           then getElementsByTagName D n ''INPUT'' @ getElementsByTagName D n ''FORM''
                           else [])) ns)"

text \<open>
  The surrogate event as the host dispatches it for a form \<open>f\<close>, and the calls of
  \<^verbatim>\<open>submit()\<close> among the actions.
\<close>

definition surrogate :: "node \<Rightarrow> ie_event" where
  "surrogate f = createEventObject\<lparr>ie_type := ''datasetcomplete'', srcElement := Some f\<rparr>"

fun is_submit :: "action \<Rightarrow> bool" where
  "is_submit (Submit n) = True"
| "is_submit a = False"

section \<open>Properties\<close>

subsection \<open>Parsing\<close>

lemma split_ws_from_nonempty: "split_ws_from piece s \<noteq> []"
  by (induction piece s rule: split_ws_from.induct) auto

lemma split_clauses_from_nonempty: "split_clauses_from piece s \<noteq> []"
  by (induction piece s rule: split_clauses_from.induct) auto

text \<open>
  The \<^verbatim>\<open>return\<close> of line 59 is never taken: every clause, the empty one too, gives a
  binding.
\<close>

lemma normalize_total: "\<exists>b. normalize wireIE cb clause = Some b"
  using split_ws_from_nonempty[of "[]" clause]
  by (cases "split_ws clause") (auto simp: normalize_def split_ws_def)

lemma clause_bindings_length:
  "length (clause_bindings wireIE entry) = length (split_clauses (fst entry))"
proof -
  have "length (List.map_filter (normalize wireIE cb) cs) = length cs" for cb cs
  proof (induction cs)
    case Nil
    show ?case by (simp add: List.map_filter_simps)
  next
    case (Cons c cs)
    obtain b where "normalize wireIE cb c = Some b"
      using normalize_total by blast
    with Cons show ?case by (simp add: List.map_filter_simps)
  qed
  then show ?thesis by (simp add: clause_bindings_def)
qed

text \<open>
  C3. The claim: every clause yields exactly one Normalized Binding, except that an
  empty clause yields none. In the code the empty clause after the comma of the spec
  string \<^verbatim>\<open>"click, "\<close> yields a binding, with the empty event type: the spec string has
  two clauses and the map has two bindings.
\<close>

theorem empty_clause_yields_binding:
  "split_clauses ''click, '' = [''click'', '''']
   \<and> split_ws '''' = ['''']
   \<and> normalize False cb '''' =
       Some \<lparr> eventType = '''', rewrittenType = '''', bubbles = True, selector = '''',
              callback = cb \<rparr>
   \<and> bindings False (Some [(''click, '', cb)]) =
       [\<lparr> eventType = ''click'', rewrittenType = ''click'', bubbles = True, selector = '''',
           callback = cb \<rparr>,
        \<lparr> eventType = '''', rewrittenType = '''', bubbles = True, selector = '''',
           callback = cb \<rparr>]"
  by (simp add: bindings_def clause_bindings_def split_clauses_def is_space_def
      normalize_def split_ws_def rewrite_def List.map_filter_simps)

text \<open>
  C4. The rewriting of event types is the fixed table: \<^verbatim>\<open>focus\<close> becomes \<^verbatim>\<open>focusin\<close> and
  \<^verbatim>\<open>blur\<close> becomes \<^verbatim>\<open>focusout\<close>, both not bubbling; \<^verbatim>\<open>change\<close> becomes \<^verbatim>\<open>cellchange\<close> and
  \<^verbatim>\<open>submit\<close> becomes \<^verbatim>\<open>datasetcomplete\<close>, bubbling, only when the compatibility layer
  is active, and are unchanged otherwise; every other type is unchanged and bubbling.
\<close>

theorem rewrite_table:
  "rewrite wireIE ''focus'' = (''focusin'', False)
   \<and> rewrite wireIE ''blur'' = (''focusout'', False)
   \<and> rewrite True ''change'' = (''cellchange'', True)
   \<and> rewrite True ''submit'' = (''datasetcomplete'', True)
   \<and> rewrite False ''change'' = (''change'', True)
   \<and> rewrite False ''submit'' = (''submit'', True)
   \<and> (t \<notin> {''focus'', ''blur'', ''change'', ''submit''} \<longrightarrow> rewrite wireIE t = (t, True))"
  by (simp add: rewrite_def)

theorem rewrite_table_witness:
  "rewrite True ''focus'' = (''focusin'', False) \<and> rewrite True ''click'' = (''click'', True)"
  using rewrite_table [of True "''click''"] by simp

subsection \<open>The ancestry walk of a delegated listener\<close>

text \<open>
  With \<open>bubbles\<close> set, the walk over a path that ends below the context returns the
  first node of the path that the selector matches.
\<close>

lemma walk_bubbling:
  "parent_chain D path \<Longrightarrow> ctx \<notin> set (map Some path) \<Longrightarrow> parentNode D (last path) = ctx \<Longrightarrow>
   walk D results True ctx (Some (hd path)) = Some (Inr (List.find (\<lambda>n. n \<in> set results) path))"
proof (induction D path rule: parent_chain.induct)
  case (1 D)
  then show ?case by simp
next
  case (2 D n)
  then show ?case by (subst walk.simps, subst walk.simps) auto
next
  case (3 D n m ns)
  then show ?case by (subst walk.simps) auto
qed

text \<open>Without \<open>bubbles\<close> the loop body runs at most once, on the origin.\<close>

lemma walk_not_bubbling:
  "walk D results False ctx (Some t) =
     Some (Inr (if Some t \<noteq> ctx \<and> t \<in> set results then Some t else None))"
  by (subst walk.simps) auto

lemma listener_bubbling:
  assumes "selector (bound c) \<noteq> []" and "bubbles (bound c)"
    and "delivery_path D (target evt) path (renderNode c)"
  shows "listener_fn D c evt
         = Some (Inr (evt\<lparr>type := eventType (bound c)\<rparr>,
              if \<exists>n \<in> set path.
                   n \<in> set (jq_find D (parentNode D (renderNode c)) (selector (bound c)))
              then [Call (callback (bound c)) (this_data c) (evt\<lparr>type := eventType (bound c)\<rparr>)]
              else []))"
proof -
  let ?res = "jq_find D (parentNode D (renderNode c)) (selector (bound c))"
  from assms(3) have w: "walk D ?res True (parentNode D (renderNode c)) (Some (target evt))
      = Some (Inr (List.find (\<lambda>n. n \<in> set ?res) path))"
    using walk_bubbling[of D path "parentNode D (renderNode c)" ?res]
    by (simp add: delivery_path_def)
  have f: "(List.find (\<lambda>n. n \<in> set ?res) path = None) = (\<not> (\<exists>n \<in> set path. n \<in> set ?res))"
    by (auto simp: find_None_iff)
  show ?thesis
  proof (cases "List.find (\<lambda>n. n \<in> set ?res) path")
    case None
    with f w assms(1,2) show ?thesis by (simp add: listener_fn_def Let_def)
  next
    case (Some m)
    with f w assms(1,2) show ?thesis by (simp add: listener_fn_def Let_def)
  qed
qed

text \<open>
  C1. For a binding with a non-empty selector and \<open>bubbles\<close> set, and an event with
  origin \<open>target evt\<close> delivered to the bound node \<open>rn\<close>: the walk ends at the first
  node of the path from the origin up to \<open>rn\<close> (that is, up to but excluding the
  context node) that is in the match set of the selector under the context, and the
  callback is invoked, once, if and only if some node of that path is in the match set.
\<close>

theorem bubbling_selector_match:
  assumes "selector b \<noteq> []" and "bubbles b"
    and "delivery_path D (target evt) path rn"
  shows "walk D (jq_find D (parentNode D rn) (selector b)) (bubbles b) (parentNode D rn)
           (Some (target evt))
         = Some (Inr (List.find (\<lambda>n. n \<in> set (jq_find D (parentNode D rn) (selector b))) path))
       \<and> listener_fn D \<lparr> renderNode = rn, bound = b, this_data = data \<rparr> evt
         = Some (Inr (evt\<lparr>type := eventType b\<rparr>,
              if \<exists>n \<in> set path. n \<in> set (jq_find D (parentNode D rn) (selector b))
              then [Call (callback b) data (evt\<lparr>type := eventType b\<rparr>)] else []))"
proof -
  from assms(3) have "walk D (jq_find D (parentNode D rn) (selector b)) True (parentNode D rn)
      (Some (target evt))
      = Some (Inr (List.find (\<lambda>n. n \<in> set (jq_find D (parentNode D rn) (selector b))) path))"
    using walk_bubbling[of D path "parentNode D rn"]
    by (simp add: delivery_path_def)
  moreover have "listener_fn D \<lparr> renderNode = rn, bound = b, this_data = data \<rparr> evt
         = Some (Inr (evt\<lparr>type := eventType b\<rparr>,
              if \<exists>n \<in> set path. n \<in> set (jq_find D (parentNode D rn) (selector b))
              then [Call (callback b) data (evt\<lparr>type := eventType b\<rparr>)] else []))"
    using listener_bubbling[of "\<lparr> renderNode = rn, bound = b, this_data = data \<rparr>" D evt path] assms
    by simp
  ultimately show ?thesis using assms(2) by simp
qed

text \<open>
  In the example document a click on the checkbox 3, delivered to node 1, is matched
  by \<^verbatim>\<open>.save\<close> at the form 2, the innermost match, and the callback is invoked.
\<close>

theorem bubbling_selector_match_witness:
  "listener_fn example_dom
     \<lparr> renderNode = 1, bound = \<lparr> eventType = ''click'', rewrittenType = ''click'', bubbles = True,
          selector = ''.save'', callback = 7 \<rparr>, this_data = 9 \<rparr> \<lparr> type = ''click'', target = 3 \<rparr>
   = Some (Inr (\<lparr> type = ''click'', target = 3 \<rparr>, [Call 7 9 \<lparr> type = ''click'', target = 3 \<rparr>]))
   \<and> walk example_dom [2] True (Some 0) (Some 3) = Some (Inr (Some 2))"
  using bubbling_selector_match [of "\<lparr> eventType = ''click'', rewrittenType = ''click'', bubbles = True,
          selector = ''.save'', callback = 7 \<rparr>" example_dom "\<lparr> type = ''click'', target = 3 \<rparr>" "[3, 2, 1]" 1 9]
  by (simp add: delivery_path_def example_dom_def)

text \<open>
  C2. A binding parsed from a clause whose event type is \<^verbatim>\<open>focus\<close> or \<^verbatim>\<open>blur\<close> does not
  bubble, and with a non-empty selector its walk looks at the origin only: the
  callback is invoked exactly when the origin itself is in the match set (and is not
  the context node), whatever the ancestors of the origin are.
\<close>

theorem non_bubbling_exact_origin:
  assumes "normalize wireIE cb clause = Some b"
    and "eventType b = ''focus'' \<or> eventType b = ''blur''"
    and "selector b \<noteq> []"
  shows "\<not> bubbles b
       \<and> walk D (jq_find D (parentNode D rn) (selector b)) (bubbles b) (parentNode D rn)
           (Some (target evt))
         = Some (Inr (if Some (target evt) \<noteq> parentNode D rn
                        \<and> target evt \<in> set (jq_find D (parentNode D rn) (selector b))
                      then Some (target evt) else None))
       \<and> listener_fn D \<lparr> renderNode = rn, bound = b, this_data = data \<rparr> evt
         = Some (Inr (evt\<lparr>type := eventType b\<rparr>,
              if Some (target evt) \<noteq> parentNode D rn
                 \<and> target evt \<in> set (jq_find D (parentNode D rn) (selector b))
              then [Call (callback b) data (evt\<lparr>type := eventType b\<rparr>)] else []))"
proof -
  from assms(1) have "bubbles b = snd (rewrite wireIE (eventType b))"
    by (auto simp: normalize_def split: list.splits)
  with assms(2) have nb: "\<not> bubbles b"
    by (auto simp: rewrite_def)
  with assms(3) show ?thesis
    by (simp add: listener_fn_def Let_def walk_not_bubbling)
qed

text \<open>
  In the example document the form 2 matches \<^verbatim>\<open>.save\<close>. A focus event whose origin is
  the checkbox 3, a child of the form, does not invoke the callback; one whose origin
  is the form does.
\<close>

theorem non_bubbling_exact_origin_witness:
  "normalize False 7 ''focus .save'' = Some \<lparr> eventType = ''focus'', rewrittenType = ''focusin'',
       bubbles = False, selector = ''.save'', callback = 7 \<rparr>
   \<and> 2 \<in> set (jq_find example_dom (parentNode example_dom 1) ''.save'')
   \<and> parentNode example_dom 3 = Some 2
   \<and> listener_fn example_dom
       \<lparr> renderNode = 1, bound = \<lparr> eventType = ''focus'', rewrittenType = ''focusin'',
          bubbles = False, selector = ''.save'', callback = 7 \<rparr>, this_data = 9 \<rparr>
       \<lparr> type = ''focusin'', target = 3 \<rparr>
     = Some (Inr (\<lparr> type = ''focus'', target = 3 \<rparr>, []))
   \<and> listener_fn example_dom
       \<lparr> renderNode = 1, bound = \<lparr> eventType = ''focus'', rewrittenType = ''focusin'',
          bubbles = False, selector = ''.save'', callback = 7 \<rparr>, this_data = 9 \<rparr>
       \<lparr> type = ''focusin'', target = 2 \<rparr>
     = Some (Inr (\<lparr> type = ''focus'', target = 2 \<rparr>, [Call 7 9 \<lparr> type = ''focus'', target = 2 \<rparr>]))"
proof -
  have n: "normalize False 7 ''focus .save'' = Some \<lparr> eventType = ''focus'', rewrittenType = ''focusin'',
       bubbles = False, selector = ''.save'', callback = 7 \<rparr>"
    by (simp add: normalize_def split_ws_def is_space_def rewrite_def)
  show ?thesis
    using n non_bubbling_exact_origin [OF n, of example_dom 1 "\<lparr> type = ''focusin'', target = 3 \<rparr>" 9]
      non_bubbling_exact_origin [OF n, of example_dom 1 "\<lparr> type = ''focusin'', target = 2 \<rparr>" 9]
    by (simp add: example_dom_def)
qed

subsection \<open>The effect of a delegated listener\<close>




subsection \<open>Installing and removing listeners\<close>

lemma sibling_loop_chain:
  "sibling_chain D ns \<Longrightarrow> after \<notin> set (map Some ns) \<Longrightarrow> nextSibling D (last ns) = after \<Longrightarrow>
   sibling_loop D body after (Some (hd ns)) S = Some (fold body ns S)"
proof (induction D ns arbitrary: S rule: sibling_chain.induct)
  case (1 D)
  then show ?case by simp
next
  case (2 D n)
  then show ?case
    by (subst sibling_loop.simps, subst sibling_loop.simps) (auto split: option.splits)
next
  case (3 D n m ns)
  then show ?case by (subst sibling_loop.simps) auto
qed

lemma sibling_loop_range:
  "node_range D start end' ns \<Longrightarrow>
   sibling_loop D body (nextSibling D end') (Some start) S = Some (fold body ns S)"
  using sibling_loop_chain[of D ns "nextSibling D end'" body S]
  by (auto simp: node_range_def)

lemma fold_attach: "fold (attach b data) ns R = R @ map (registration b data) ns"
  by (induction ns arbitrary: R) (auto simp: attach_def event_add_def registration_def)

lemma each_clauses:
  assumes "node_range D start end' ns"
  shows "each (\<lambda>clause R'.
           (case normalize wireIE cb clause of
              None \<Rightarrow> Some R'
            | Some b \<Rightarrow>
                sibling_loop D (attach b data) (nextSibling D end') (Some start) R')) cl R
         = Some (R @ concat (map (\<lambda>b. map (registration b data) ns)
                                (List.map_filter (normalize wireIE cb) cl)))"
proof (induction cl arbitrary: R)
  case Nil
  show ?case by (simp add: List.map_filter_simps)
next
  case (Cons c cl)
  obtain b where b: "normalize wireIE cb c = Some b"
    using normalize_total by blast
  show ?case
    by (simp add: b sibling_loop_range[OF assms] fold_attach Cons List.map_filter_simps)
qed

lemma each_append: "each (\<lambda>x R. Some (R @ g x)) xs R = Some (R @ concat (map g xs))"
  by (induction xs arbitrary: R) auto

lemma attachEvents_installed:
  assumes "node_range D start end' ns"
  shows "attachEvents D wireIE start end' events data R
         = Some (R @ installed wireIE events data ns)"
proof -
  have inner: "(\<lambda>entry.
        each (\<lambda>clause R'.
           (case normalize wireIE (snd entry) clause of
              None \<Rightarrow> Some R'
            | Some b \<Rightarrow>
                sibling_loop D (attach b data) (nextSibling D end') (Some start) R'))
          (split_clauses (fst entry)))
      = (\<lambda>entry R. Some (R @ concat (map (\<lambda>b. map (registration b data) ns)
                                     (clause_bindings wireIE entry))))"
    by (intro ext) (simp add: each_clauses[OF assms] clause_bindings_def)
  have flat: "concat (map (\<lambda>entry. concat (map (\<lambda>b. map (registration b data) ns)
                                     (clause_bindings wireIE entry))) m)
      = concat (map (\<lambda>b. map (registration b data) ns) (concat (map (clause_bindings wireIE) m)))"
    for m
    by (induction m) auto
  show ?thesis
    unfolding attachEvents_def inner each_append installed_def bindings_def flat ..
qed

lemma installed_on_node:
  "distinct ns \<Longrightarrow>
   filter (\<lambda>l. on_node l = n) (installed wireIE events data ns)
     = (if n \<in> set ns then map (\<lambda>b. registration b data n) (bindings wireIE events) else [])"
proof -
  assume d: "distinct ns"
  have one: "filter (\<lambda>l. on_node l = n) (map (registration b data) ns)
      = (if n \<in> set ns then [registration b data n] else [])" for b
    using d by (induction ns) (auto simp: registration_def)
  have "filter (\<lambda>l. on_node l = n) (concat (map (\<lambda>b. map (registration b data) ns) bs))
     = (if n \<in> set ns then map (\<lambda>b. registration b data n) bs else [])" for bs
    by (induction bs) (auto simp: one)
  then show ?thesis by (simp add: installed_def)
qed


lemma split_dots_from_append:
  "split_dots_from p (t @ CHR ''.'' # u) = split_dots_from p t @ split_dots_from [] u"
  by (induction t arbitrary: p) auto

lemma split_dots_from_nonempty: "split_dots_from p t \<noteq> []"
  by (induction t arbitrary: p) auto

lemma liveui_registration: "liveui (registration b data n)"
proof -
  have "split_dots_from [] (rewrittenType b @ ''.liveui'')
      = split_dots_from [] (rewrittenType b) @ [''liveui'']"
    using split_dots_from_append[of "[]" "rewrittenType b" "''liveui''"] by simp
  then show ?thesis
    using split_dots_from_nonempty[of "[]" "rewrittenType b"]
    by (cases "split_dots_from [] (rewrittenType b)")
       (auto simp: liveui_def registration_def reg_namespaces_def)
qed

lemma liveui_installed: "l \<in> set (installed wireIE events data ns) \<Longrightarrow> liveui l"
  by (auto simp: installed_def liveui_registration)

lemma resetEvents_filter:
  "resetEvents n R = filter (\<lambda>l. \<not> (on_node l = n \<and> liveui l)) R"
  by (simp add: resetEvents_def unbind_def liveui_def)

lemma run_listeners_foreign:
  "\<forall>l \<in> set L. \<forall>c. handler l \<noteq> Delegated c \<Longrightarrow> run_listeners D L evt = Some (Inr (evt, []))"
proof (induction L)
  case Nil
  show ?case by simp
next
  case (Cons l L)
  then show ?case by (cases "handler l") auto
qed

lemma deliver_after_reset:
  assumes "delegated_under_liveui R"
  shows "deliver D (resetEvents n R) n evt = Some (Inr (evt, []))"
proof -
  have "\<forall>l \<in> set (filter (\<lambda>l. on_node l = n \<and> reg_type (types l) = type evt) (resetEvents n R)).
          \<forall>c. handler l \<noteq> Delegated c"
    using assms
    by (auto simp: resetEvents_filter delegated_under_liveui_def list_all_iff
        split: handler.splits)
  then show ?thesis
    unfolding deliver_def by (rule run_listeners_foreign)
qed

lemma delegated_under_liveui_append:
  "delegated_under_liveui R \<Longrightarrow> delegated_under_liveui (R @ installed wireIE events data ns)"
  by (auto simp: delegated_under_liveui_def list_all_iff liveui_installed split: handler.splits)

text \<open>
  C6. After \<^verbatim>\<open>attachEvents\<close> on a range, \<^verbatim>\<open>resetEvents\<close> on a node \<open>n\<close> leaves no listener
  under \<^verbatim>\<open>.liveui\<close> on \<open>n\<close>, whatever its event type or binding: on \<open>n\<close> there remain
  the listeners of other subsystems that were there before. The listeners that are
  not under \<^verbatim>\<open>.liveui\<close> and the listeners of other nodes are unchanged. It is a no-op
  when no such listener is installed on \<open>n\<close>, and so when it is run again. After it, an
  event of any type delivered to \<open>n\<close> invokes no callback.
\<close>

theorem resetEvents_removes_liveui:
  assumes "node_range D start end' ns" and "delegated_under_liveui R"
  shows "\<exists>R'. attachEvents D wireIE start end' events data R = Some R'
           \<and> (\<forall>l \<in> set (resetEvents n R'). \<not> (on_node l = n \<and> liveui l))
           \<and> filter (\<lambda>l. on_node l = n) (resetEvents n R')
               = filter (\<lambda>l. on_node l = n \<and> \<not> liveui l) R
           \<and> filter (\<lambda>l. \<not> liveui l) (resetEvents n R') = filter (\<lambda>l. \<not> liveui l) R'
           \<and> filter (\<lambda>l. on_node l \<noteq> n) (resetEvents n R') = filter (\<lambda>l. on_node l \<noteq> n) R'
           \<and> ((\<forall>l \<in> set R'. \<not> (on_node l = n \<and> liveui l)) \<longrightarrow> resetEvents n R' = R')
           \<and> resetEvents n (resetEvents n R') = resetEvents n R'
           \<and> deliver D (resetEvents n R') n evt = Some (Inr (evt, []))"
proof -
  let ?R' = "R @ installed wireIE events data ns"
  have a: "attachEvents D wireIE start end' events data R = Some ?R'"
    by (rule attachEvents_installed[OF assms(1)])
  have 1: "\<forall>l \<in> set (resetEvents n ?R'). \<not> (on_node l = n \<and> liveui l)"
    by (auto simp: resetEvents_filter)
  have 2: "filter (\<lambda>l. on_node l = n) (resetEvents n ?R')
               = filter (\<lambda>l. on_node l = n \<and> \<not> liveui l) R"
  proof -
    have "filter (\<lambda>l. \<not> (on_node l = n \<and> liveui l) \<and> on_node l = n) R
        = filter (\<lambda>l. on_node l = n \<and> \<not> liveui l) R"
      by (rule filter_cong) auto
    moreover have "filter (\<lambda>l. \<not> (on_node l = n \<and> liveui l) \<and> on_node l = n)
        (installed wireIE events data ns) = []"
      by (auto simp: filter_empty_conv liveui_installed)
    ultimately show ?thesis
      unfolding resetEvents_filter filter_filter filter_append by simp
  qed
  have 3: "filter (\<lambda>l. \<not> liveui l) (resetEvents n ?R') = filter (\<lambda>l. \<not> liveui l) ?R'"
    unfolding resetEvents_filter filter_filter by (rule filter_cong) auto
  have 4: "filter (\<lambda>l. on_node l \<noteq> n) (resetEvents n ?R') = filter (\<lambda>l. on_node l \<noteq> n) ?R'"
    unfolding resetEvents_filter filter_filter by (rule filter_cong) auto
  have 5: "(\<forall>l \<in> set ?R'. \<not> (on_node l = n \<and> liveui l)) \<longrightarrow> resetEvents n ?R' = ?R'"
    unfolding resetEvents_filter by (simp add: filter_id_conv)
  have 6: "resetEvents n (resetEvents n ?R') = resetEvents n ?R'"
    unfolding resetEvents_filter by simp
  have 7: "deliver D (resetEvents n ?R') n evt = Some (Inr (evt, []))"
    by (rule deliver_after_reset[OF delegated_under_liveui_append[OF assms(2)]])
  from a 1 2 3 4 5 6 7 show ?thesis by blast
qed


lemma listener_fn_type_irrelevant: "listener_fn D c (e\<lparr>type := t\<rparr>) = listener_fn D c e"
  by (simp add: listener_fn_def Let_def)

lemma listener_fn_event:
  "listener_fn D c e = Some (Inr (e', cs)) \<Longrightarrow> e' = e\<lparr>type := eventType (bound c)\<rparr>"
  by (auto simp: listener_fn_def Let_def split: if_splits option.splits sum.splits)

lemma run_listeners_type_irrelevant:
  "L \<noteq> [] \<Longrightarrow> \<forall>l \<in> set L. \<exists>c. handler l = Delegated c \<Longrightarrow>
   run_listeners D L (e\<lparr>type := t\<rparr>) = run_listeners D L e"
  by (cases L) (auto simp: listener_fn_type_irrelevant)

lemma run_listeners_event:
  "\<forall>l \<in> set L. \<exists>c. handler l = Delegated c \<Longrightarrow>
   run_listeners D L e = Some (Inr (e', cs)) \<Longrightarrow> \<exists>t. e' = e\<lparr>type := t\<rparr>"
proof (induction L arbitrary: e e' cs)
  case Nil
  then have "e' = e\<lparr>type := type e\<rparr>" by simp
  then show ?case by blast
next
  case (Cons l L)
  from Cons.prems(1) obtain c where c: "handler l = Delegated c" by auto
  from Cons.prems(2) c obtain e1 cs1 e2 cs2 where
    1: "listener_fn D c e = Some (Inr (e1, cs1))" and
    2: "run_listeners D L e1 = Some (Inr (e2, cs2))" and 3: "e' = e2"
    by (auto split: option.splits sum.splits prod.splits)
  from Cons.IH[OF _ 2] Cons.prems(1) obtain t where "e2 = e1\<lparr>type := t\<rparr>" by auto
  with listener_fn_event[OF 1] 3 have "e' = e\<lparr>type := t\<rparr>" by simp
  then show ?case by blast
qed

lemma run_listeners_append:
  "run_listeners D L1 e = Some (Inr (e1, cs1)) \<Longrightarrow> run_listeners D L2 e1 = Some (Inr (e2, cs2)) \<Longrightarrow>
   run_listeners D (L1 @ L2) e = Some (Inr (e2, cs1 @ cs2))"
proof (induction L1 arbitrary: e cs1)
  case Nil
  then show ?case by simp
next
  case (Cons l L1)
  show ?case
  proof (cases "handler l")
    case (Foreign f)
    with Cons show ?thesis by simp
  next
    case (Delegated c)
    with Cons.prems(1) obtain ea ca cb where
      1: "listener_fn D c e = Some (Inr (ea, ca))" and
      2: "run_listeners D L1 ea = Some (Inr (e1, cb))" and 3: "cs1 = ca @ cb"
      by (auto split: option.splits sum.splits prod.splits)
    from Cons.IH[OF 2 Cons.prems(2)]
    have "run_listeners D (L1 @ L2) ea = Some (Inr (e2, cb @ cs2))" .
    with 1 3 Delegated show ?thesis by simp
  qed
qed

lemma run_listeners_twice:
  assumes "\<forall>l \<in> set L. \<exists>c. handler l = Delegated c"
    and "run_listeners D L e = Some (Inr (e1, cs))"
  shows "run_listeners D (L @ L) e = Some (Inr (e1, cs @ cs))"
proof (cases "L = []")
  case True
  with assms(2) show ?thesis by simp
next
  case False
  from run_listeners_event[OF assms] obtain t where "e1 = e\<lparr>type := t\<rparr>" by blast
  with run_listeners_type_irrelevant[OF False assms(1)] assms(2)
  have "run_listeners D L e1 = Some (Inr (e1, cs))" by simp
  with assms(2) show ?thesis by (rule run_listeners_append)
qed

lemma installed_delegated:
  "l \<in> set (installed wireIE events data ns) \<Longrightarrow> \<exists>c. handler l = Delegated c"
  by (auto simp: installed_def registration_def)

lemma deliver_twice:
  assumes "deliver D (installed wireIE events data ns) n evt = Some (Inr (e1, cs))"
  shows "deliver D (installed wireIE events data ns @ installed wireIE events data ns) n evt
         = Some (Inr (e1, cs @ cs))"
proof -
  let ?L = "filter (\<lambda>l. on_node l = n \<and> reg_type (types l) = type evt)
              (installed wireIE events data ns)"
  have "\<forall>l \<in> set ?L. \<exists>c. handler l = Delegated c"
    by (auto dest: installed_delegated)
  from run_listeners_twice[OF this] assms show ?thesis
    by (simp add: deliver_def)
qed

text \<open>
  C7. \<^verbatim>\<open>attachEvents\<close> called twice with the same range and the same event map installs
  everything twice; an event delivered to a node then invokes the callbacks the
  listeners of one call invoke, and then the same callbacks again: a single matching
  binding has its callback invoked exactly twice.
\<close>

theorem attachEvents_not_idempotent:
  assumes "node_range D start end' ns"
  shows "attachEvents D wireIE start end' events data [] = Some (installed wireIE events data ns)
       \<and> attachEvents D wireIE start end' events data (installed wireIE events data ns)
           = Some (installed wireIE events data ns @ installed wireIE events data ns)
       \<and> (deliver D (installed wireIE events data ns) n evt = Some (Inr (e1, calls))
            \<longrightarrow> deliver D (installed wireIE events data ns @ installed wireIE events data ns) n evt
                  = Some (Inr (e1, calls @ calls)))"
  using attachEvents_installed[OF assms, of wireIE events data "[]"]
    attachEvents_installed[OF assms, of wireIE events data "installed wireIE events data ns"]
    deliver_twice[of D wireIE events data ns n evt e1 calls]
  by simp

lemma example_range: "node_range example_dom 1 4 [1, 4]"
  by (simp add: node_range_def example_dom_def)

lemma example_installed:
  "installed False (Some [(''click .save'', 7)]) 9 [1, 4]
   = [registration \<lparr> eventType = ''click'', rewrittenType = ''click'', bubbles = True,
          selector = ''.save'', callback = 7 \<rparr> 9 1,
      registration \<lparr> eventType = ''click'', rewrittenType = ''click'', bubbles = True,
          selector = ''.save'', callback = 7 \<rparr> 9 4]"
  by (simp add: installed_def bindings_def clause_bindings_def split_clauses_def is_space_def
      normalize_def split_ws_def rewrite_def List.map_filter_simps)

lemma example_deliver:
  "deliver example_dom (installed False (Some [(''click .save'', 7)]) 9 [1, 4]) 1
     \<lparr> type = ''click'', target = 3 \<rparr>
   = Some (Inr (\<lparr> type = ''click'', target = 3 \<rparr>, [Call 7 9 \<lparr> type = ''click'', target = 3 \<rparr>]))"
proof -
  have "delivery_path example_dom 3 [3, 2, 1] 1"
    by (simp add: delivery_path_def example_dom_def)
  from listener_bubbling[of "\<lparr> renderNode = 1, bound = \<lparr> eventType = ''click'',
      rewrittenType = ''click'', bubbles = True, selector = ''.save'', callback = 7 \<rparr>,
      this_data = 9 \<rparr>" example_dom "\<lparr> type = ''click'', target = 3 \<rparr>" "[3, 2, 1]"] this
  have "listener_fn example_dom \<lparr> renderNode = 1, bound = \<lparr> eventType = ''click'',
      rewrittenType = ''click'', bubbles = True, selector = ''.save'', callback = 7 \<rparr>,
      this_data = 9 \<rparr> \<lparr> type = ''click'', target = 3 \<rparr>
     = Some (Inr (\<lparr> type = ''click'', target = 3 \<rparr>, [Call 7 9 \<lparr> type = ''click'', target = 3 \<rparr>]))"
    by (simp add: example_dom_def)
  then show ?thesis
    unfolding deliver_def example_installed
    by (simp add: registration_def reg_type_def)
qed

text \<open>
  One binding, \<^verbatim>\<open>click .save\<close>; a click on the checkbox 3 of the example document is
  delivered to node 1: the callback is invoked once after one call, twice after two.
\<close>

theorem attachEvents_not_idempotent_witness:
  "attachEvents example_dom False 1 4 (Some [(''click .save'', 7)]) 9 []
     = Some (installed False (Some [(''click .save'', 7)]) 9 [1, 4])
   \<and> attachEvents example_dom False 1 4 (Some [(''click .save'', 7)]) 9
       (installed False (Some [(''click .save'', 7)]) 9 [1, 4])
     = Some (installed False (Some [(''click .save'', 7)]) 9 [1, 4]
             @ installed False (Some [(''click .save'', 7)]) 9 [1, 4])
   \<and> deliver example_dom (installed False (Some [(''click .save'', 7)]) 9 [1, 4]) 1
       \<lparr> type = ''click'', target = 3 \<rparr>
     = Some (Inr (\<lparr> type = ''click'', target = 3 \<rparr>, [Call 7 9 \<lparr> type = ''click'', target = 3 \<rparr>]))
   \<and> deliver example_dom (installed False (Some [(''click .save'', 7)]) 9 [1, 4]
                            @ installed False (Some [(''click .save'', 7)]) 9 [1, 4]) 1
       \<lparr> type = ''click'', target = 3 \<rparr>
     = Some (Inr (\<lparr> type = ''click'', target = 3 \<rparr>,
          [Call 7 9 \<lparr> type = ''click'', target = 3 \<rparr>, Call 7 9 \<lparr> type = ''click'', target = 3 \<rparr>]))"
  using attachEvents_not_idempotent [OF example_range, of False "Some [(''click .save'', 7)]" 9 1
      "\<lparr> type = ''click'', target = 3 \<rparr>" "\<lparr> type = ''click'', target = 3 \<rparr>"
      "[Call 7 9 \<lparr> type = ''click'', target = 3 \<rparr>]"] example_deliver
  by simp


text \<open>
  C5. For a call of \<^verbatim>\<open>attachEvents\<close> on the range \<open>[start, end]\<close>, whose nodes are \<open>ns\<close>:
  the call returns, and what it adds to the registry is, for every binding parsed from
  the event map, one listener for the rewritten type under \<^verbatim>\<open>.liveui\<close> on each node
  of the range. On a node \<open>n\<close> of the range the added listeners are one for each
  binding; on a node outside the range there is none.
\<close>

theorem attachEvents_installs_on_range:
  assumes "node_range D start end' ns"
  shows "attachEvents D wireIE start end' events data R
           = Some (R @ installed wireIE events data ns)
       \<and> filter (\<lambda>l. on_node l = n) (installed wireIE events data ns)
           = (if n \<in> set ns then map (\<lambda>b. registration b data n) (bindings wireIE events)
              else [])
       \<and> (\<forall>l \<in> set (installed wireIE events data ns). liveui l)"
proof -
  from assms have "distinct ns" by (simp add: node_range_def)
  then show ?thesis
    using attachEvents_installed[OF assms] installed_on_node liveui_installed by blast
qed

text \<open>The range of the nodes 1 and 4 of the example document, and one binding.\<close>

theorem attachEvents_installs_on_range_witness:
  "attachEvents example_dom False 1 4 (Some [(''click .save'', 7)]) 9 []
     = Some [\<lparr> on_node = 1, types = ''click.liveui'',
               handler = Delegated \<lparr> renderNode = 1,
                  bound = \<lparr> eventType = ''click'', rewrittenType = ''click'', bubbles = True,
                            selector = ''.save'', callback = 7 \<rparr>, this_data = 9 \<rparr> \<rparr>,
             \<lparr> on_node = 4, types = ''click.liveui'',
               handler = Delegated \<lparr> renderNode = 4,
                  bound = \<lparr> eventType = ''click'', rewrittenType = ''click'', bubbles = True,
                            selector = ''.save'', callback = 7 \<rparr>, this_data = 9 \<rparr> \<rparr>]
   \<and> filter (\<lambda>l. on_node l = 0) (installed False (Some [(''click .save'', 7)]) 9 [1, 4]) = []"
  using attachEvents_installs_on_range [OF example_range, of False "Some [(''click .save'', 7)]" 9 "[]" 0]
  unfolding example_installed
  by (simp add: registration_def)

theorem resetEvents_removes_liveui_witness:
  "\<exists>R'. attachEvents example_dom False 1 4 (Some [(''click .save'', 7)]) 9
           [\<lparr> on_node = 1, types = ''click.other'', handler = Foreign 5 \<rparr>] = Some R'
      \<and> filter (\<lambda>l. on_node l = 1) (resetEvents 1 R')
          = [\<lparr> on_node = 1, types = ''click.other'', handler = Foreign 5 \<rparr>]
      \<and> deliver example_dom (resetEvents 1 R') 1 \<lparr> type = ''click'', target = 3 \<rparr>
          = Some (Inr (\<lparr> type = ''click'', target = 3 \<rparr>, []))"
proof -
  have inv: "delegated_under_liveui [\<lparr> on_node = 1, types = ''click.other'', handler = Foreign 5 \<rparr>]"
    by (simp add: delegated_under_liveui_def)
  have keep: "filter (\<lambda>l. on_node l = 1 \<and> \<not> liveui l)
                [\<lparr> on_node = 1, types = ''click.other'', handler = Foreign 5 \<rparr>]
              = [\<lparr> on_node = 1, types = ''click.other'', handler = Foreign 5 \<rparr>]"
    by (simp add: liveui_def reg_namespaces_def)
  from resetEvents_removes_liveui [OF example_range inv, of False "Some [(''click .save'', 7)]" 9 1
      "\<lparr> type = ''click'', target = 3 \<rparr>"]
  show ?thesis unfolding keep by blast
qed

subsection \<open>The compatibility layer\<close>

text \<open>
  The shared handler receives a \<^verbatim>\<open>submit\<close> event of a form \<open>f\<close>. It first blocks the
  native submission (it sets \<^verbatim>\<open>returnValue\<close> of the event to false), then fires the
  surrogate \<^verbatim>\<open>ondatasetcomplete\<close> at the form. The document's listener calls
  \<^verbatim>\<open>submit()\<close> of the form, once, when the listeners below the document neither
  cancelled the surrogate nor stopped its propagation; there is no call when they
  cancelled it, and none when they stopped it. Nothing fires \<^verbatim>\<open>onsubmit\<close> again.
\<close>

lemma submit_trace:
  assumes "ie_type evt = ''submit''" and "srcElement evt = Some f" and "nodeName D f = ''FORM''"
  shows "changeSubmitHandlerIE D below (Some evt)
         = (Some (evt\<lparr>returnValue := Some False\<rparr>),
            [BlockDefault, FireEvent f ''ondatasetcomplete'']
              @ (if cancelBubble (below (surrogate f))
                    \<or> returnValue (below (surrogate f)) = Some False
                 then [] else [Submit f]))
       \<and> length (filter is_submit (snd (changeSubmitHandlerIE D below (Some evt))))
           = (if cancelBubble (below (surrogate f))
                 \<or> returnValue (below (surrogate f)) = Some False
              then 0 else 1)
       \<and> (\<forall>n. FireEvent n ''onsubmit'' \<notin> set (snd (changeSubmitHandlerIE D below (Some evt))))"
  using assms
  by (simp add: changeSubmitHandlerIE_def fireEvent_def ondatasetcomplete_def surrogate_def Let_def)

text \<open>
  C9. The claim: the deferred submission is performed exactly once when no handler
  cancelled the surrogate event, and the comment of lines 231 to 233 says the form
  is submitted later if the application does not prevent it. In the code the
  submission is made by the listener of the document only. Here the form 2 of the
  example document is submitted and a callback below the document stops the
  propagation of the surrogate without cancelling it (its \<^verbatim>\<open>returnValue\<close> stays unset):
  the native submission is blocked, the surrogate is fired, and \<^verbatim>\<open>submit()\<close> is never
  called. With listeners that leave the surrogate alone it is called once.
\<close>

theorem stopped_surrogate_never_submits:
  "changeSubmitHandlerIE example_dom (\<lambda>e. e\<lparr>cancelBubble := True\<rparr>)
      (Some \<lparr> ie_type = ''submit'', srcElement = Some 2, propertyName = [], returnValue = None,
              cancelBubble = False \<rparr>)
    = (Some \<lparr> ie_type = ''submit'', srcElement = Some 2, propertyName = [],
              returnValue = Some False, cancelBubble = False \<rparr>,
       [BlockDefault, FireEvent 2 ''ondatasetcomplete''])
   \<and> returnValue ((surrogate 2)\<lparr>cancelBubble := True\<rparr>) = None
   \<and> changeSubmitHandlerIE example_dom (\<lambda>e. e)
      (Some \<lparr> ie_type = ''submit'', srcElement = Some 2, propertyName = [], returnValue = None,
              cancelBubble = False \<rparr>)
    = (Some \<lparr> ie_type = ''submit'', srcElement = Some 2, propertyName = [],
              returnValue = Some False, cancelBubble = False \<rparr>,
       [BlockDefault, FireEvent 2 ''ondatasetcomplete'', Submit 2])"
  by (simp add: changeSubmitHandlerIE_def fireEvent_def ondatasetcomplete_def surrogate_def
      createEventObject_def example_dom_def Let_def)

lemma rewire_at_most_one:
  assumes "at_most_one NR"
  shows "at_most_one (attachEvent n ev ChangeSubmitHandlerIE (detachEvent n ev ChangeSubmitHandlerIE NR))"
proof -
  let ?x = "(n, ev, ChangeSubmitHandlerIE)"
  have "compat_entries (remove1 ?x NR @ [?x]) = remove1 ?x (compat_entries NR) @ [?x]"
    by (simp add: compat_entries_def filter_remove1)
  moreover have "distinct (remove1 ?x (compat_entries NR) @ [?x])"
    using assms by (simp add: at_most_one_def)
  ultimately show ?thesis
    by (simp add: at_most_one_def attachEvent_def detachEvent_def)
qed

lemma wireNode_at_most_one: "at_most_one NR \<Longrightarrow> at_most_one (wireNode D m NR)"
  by (simp add: wireNode_def rewire_at_most_one)

lemma rewire_keeps:
  "x \<in> set NR \<Longrightarrow> x \<in> set (attachEvent n ev h (detachEvent n ev h NR))"
  by (cases "x = (n, ev, h)") (auto simp: attachEvent_def detachEvent_def)

lemma wireNode_keeps: "x \<in> set NR \<Longrightarrow> x \<in> set (wireNode D m NR)"
  by (simp add: wireNode_def rewire_keeps)

lemma wireNode_wires:
  "nodeName D m = ''INPUT'' \<or> nodeName D m = ''FORM'' \<Longrightarrow>
   (m, wired_event D m, ChangeSubmitHandlerIE) \<in> set (wireNode D m NR)"
  by (auto simp: wireNode_def wired_event_def attachEvent_def)

lemma fold_wireNode_at_most_one:
  "at_most_one NR \<Longrightarrow> at_most_one (fold (wireNode D) ms NR)"
  by (induction ms arbitrary: NR) (auto simp: wireNode_at_most_one)

lemma fold_wireNode_keeps: "x \<in> set NR \<Longrightarrow> x \<in> set (fold (wireNode D) ms NR)"
  by (induction ms arbitrary: NR) (auto simp: wireNode_keeps)

lemma fold_wireNode_wires:
  "m \<in> set ms \<Longrightarrow> nodeName D m = ''INPUT'' \<or> nodeName D m = ''FORM'' \<Longrightarrow>
   (m, wired_event D m, ChangeSubmitHandlerIE) \<in> set (fold (wireNode D) ms NR)"
proof (induction ms arbitrary: NR)
  case Nil
  then show ?case by simp
next
  case (Cons a ms)
  show ?case
  proof (cases "m \<in> set ms")
    case True
    with Cons show ?thesis by simp
  next
    case False
    with Cons.prems have "m = a" by simp
    with Cons.prems(2) show ?thesis
      by (simp add: fold_wireNode_keeps wireNode_wires)
  qed
qed

lemma fold_wire_range_node:
  "fold (wire_range_node D) ns NR = fold (wireNode D) (wired_nodes D ns) NR"
  by (induction ns arbitrary: NR) (auto simp: wire_range_node_def wired_nodes_def Let_def)

lemma prepare_all_fold:
  "list_all2 (\<lambda>r ns. node_range D (fst r) (snd r) ns) ranges nss \<Longrightarrow>
   prepare_all D True ranges NR = Some (fold (wireNode D) (concat (map (wired_nodes D) nss)) NR)"
proof (induction ranges nss arbitrary: NR rule: list_all2_induct)
  case Nil
  show ?case by (simp add: prepare_all_def)
next
  case (Cons r ranges ns nss)
  from Cons.hyps(1) have "prepareForEvents D True (fst r) (snd r) NR
      = Some (fold (wireNode D) (wired_nodes D ns) NR)"
    by (simp add: prepareForEvents_def wireIEChangeSubmitHack_def sibling_loop_range
        fold_wire_range_node)
  with Cons.IH show ?case by (simp add: prepare_all_def)
qed

lemma prepare_all_inactive: "prepare_all D False ranges NR = Some NR"
  by (induction ranges) (auto simp: prepare_all_def prepareForEvents_def)

lemma at_most_one_count:
  "at_most_one NR \<Longrightarrow> count_list NR (n, ev, ChangeSubmitHandlerIE) \<le> 1"
proof (induction NR)
  case Nil
  show ?case by simp
next
  case (Cons a NR)
  then have ih: "count_list NR (n, ev, ChangeSubmitHandlerIE) \<le> 1"
    by (auto simp: at_most_one_def compat_entries_def split: if_splits)
  show ?case
  proof (cases "a = (n, ev, ChangeSubmitHandlerIE)")
    case True
    with Cons.prems have "(n, ev, ChangeSubmitHandlerIE) \<notin> set NR"
      by (auto simp: at_most_one_def compat_entries_def)
    with True show ?thesis by (simp add: count_list_0_iff)
  next
    case False
    with ih show ?thesis by simp
  qed
qed

lemma count_list_pos: "x \<in> set xs \<Longrightarrow> 0 < count_list xs x"
  by (induction xs) auto

text \<open>
  C10. Any number of calls of \<^verbatim>\<open>prepareForEvents\<close>, each on a range of the document,
  from a table with at most one entry of the shared handler for each node and event:
  the calls return, and the table still has at most one such entry for each node and
  event; when the layer is active, each \<^verbatim>\<open>INPUT\<close> or \<^verbatim>\<open>FORM\<close> node that was wired
  has exactly one, for its wired event.
\<close>

theorem wiring_idempotent:
  assumes "list_all2 (\<lambda>r ns. node_range D (fst r) (snd r) ns) ranges nss"
    and "at_most_one NR"
  shows "\<exists>NR'. prepare_all D wireIE ranges NR = Some NR'
           \<and> (\<forall>n ev. count_list NR' (n, ev, ChangeSubmitHandlerIE) \<le> 1)
           \<and> (wireIE \<longrightarrow>
                (\<forall>m \<in> set (concat (map (wired_nodes D) nss)).
                   nodeName D m = ''INPUT'' \<or> nodeName D m = ''FORM'' \<longrightarrow>
                   count_list NR' (m, wired_event D m, ChangeSubmitHandlerIE) = 1))"
proof (cases wireIE)
  case False
  then show ?thesis
    using at_most_one_count[OF assms(2)] by (simp add: prepare_all_inactive)
next
  case True
  let ?NR' = "fold (wireNode D) (concat (map (wired_nodes D) nss)) NR"
  have a: "prepare_all D wireIE ranges NR = Some ?NR'"
    using True prepare_all_fold[OF assms(1)] by simp
  have b: "at_most_one ?NR'"
    by (rule fold_wireNode_at_most_one[OF assms(2)])
  have c: "count_list ?NR' (m, wired_event D m, ChangeSubmitHandlerIE) = 1"
    if "m \<in> set (concat (map (wired_nodes D) nss))"
      and "nodeName D m = ''INPUT'' \<or> nodeName D m = ''FORM''" for m
    using at_most_one_count[OF b, of m "wired_event D m"]
      count_list_pos[OF fold_wireNode_wires[OF that, of NR]]
    by simp
  from a b c show ?thesis
    using at_most_one_count by blast
qed

text \<open>
  Three calls over ranges of the example document that all contain node 1, and so
  the form 2 and the checkbox 3 under it.
\<close>

theorem wiring_idempotent_witness:
  "\<exists>NR'. prepare_all example_dom True [(1, 4), (1, 4), (1, 1)] [] = Some NR'
      \<and> count_list NR' (2, ''onsubmit'', ChangeSubmitHandlerIE) = 1
      \<and> count_list NR' (3, ''onpropertychange'', ChangeSubmitHandlerIE) = 1"
proof -
  have r: "list_all2 (\<lambda>r ns. node_range example_dom (fst r) (snd r) ns)
             [(1, 4), (1, 4), (1, 1)] [[1, 4], [1, 4], [1]]"
    by (simp add: node_range_def example_dom_def)
  have e: "at_most_one []"
    by (simp add: at_most_one_def compat_entries_def)
  have m: "2 \<in> set (concat (map (wired_nodes example_dom) [[1, 4], [1, 4], [1]]))"
      "3 \<in> set (concat (map (wired_nodes example_dom) [[1, 4], [1, 4], [1]]))"
    by (simp_all add: wired_nodes_def example_dom_def)
  have w: "wired_event example_dom 2 = ''onsubmit''" "wired_event example_dom 3 = ''onpropertychange''"
     "nodeName example_dom 2 = ''FORM''" "nodeName example_dom 3 = ''INPUT''"
    by (simp_all add: wired_event_def example_dom_def)
  from wiring_idempotent [OF r e, of True] m w show ?thesis
    by metis
qed

end
